theory Spec2Isabelle
  imports Complex_Main "HOL-Library.Log_Nat" "HOL-Library.AList"
begin

section \<open>Python numbers\<close>

text \<open>
  The generator script computes with Python's unbounded integers and with floats (IEEE
  binary64). Integers are \<^typ>\<open>int\<close>. A finite float is represented by the rational
  number it denotes, and every float operation is the exact operation followed by
  \<open>double_of\<close>, rounding to the nearest binary64 value with ties to the even
  significand. The two zeros of binary64 are one value here, and results are only used
  below the overflow threshold \<open>2 ^ 1024\<close>.
\<close>

definition round_half_even :: "rat \<Rightarrow> int" where
  "round_half_even x =
     (let f = \<lfloor>x\<rfloor>; r = x - of_int f
      in if r < 1 / 2 then f else if 1 / 2 < r then f + 1 else if even f then f else f + 1)"

definition ilog2 :: "rat \<Rightarrow> int" where
  "ilog2 x =
     (let (n, d) = quotient_of x; e = bitlen n - bitlen d
      in if 2 powi e \<le> x then e else e - 1)"

definition double_ulp :: "rat \<Rightarrow> rat" where
  "double_ulp x = 2 powi (max (ilog2 \<bar>x\<bar>) (- 1022) - 52)"

definition double_of :: "rat \<Rightarrow> rat" where
  "double_of x =
     (if x = 0 then 0
      else sgn x * (of_int (round_half_even (\<bar>x\<bar> / double_ulp x)) * double_ulp x))"

lemma round_half_even_ge: "of_int a \<le> x \<Longrightarrow> a \<le> round_half_even x"
  unfolding round_half_even_def Let_def by (auto simp: le_floor_iff) linarith+

lemma round_half_even_le: "x \<le> of_int b \<Longrightarrow> round_half_even x \<le> b"
  unfolding round_half_even_def Let_def
  by (auto simp: floor_le_iff)

lemma round_half_even_near:
  "x - 1 / 2 \<le> of_int (round_half_even x)" "of_int (round_half_even x) \<le> x + 1 / 2"
  unfolding round_half_even_def Let_def by (auto; linarith)+

lemma bitlen_powi_bounds:
  assumes "0 < n"
  shows "2 powi (bitlen n - 1) \<le> (of_int n :: rat)" "(of_int n :: rat) < 2 powi (bitlen n)"
proof -
  from bitlen_bounds[OF assms] have a: "2 ^ nat (bitlen n - 1) \<le> n" and b: "n < 2 ^ nat (bitlen n)" by auto
  have ge1: "1 \<le> bitlen n" using assms by (simp add: bitlen_alt_def)
  have "(of_int (2 ^ nat (bitlen n - 1)) :: rat) \<le> of_int n" using a by (simp only: of_int_le_iff)
  then show "2 powi (bitlen n - 1) \<le> (of_int n :: rat)" using ge1 by (simp add: power_int_def)
  have "(of_int n :: rat) < of_int (2 ^ nat (bitlen n))" using b by (simp only: of_int_less_iff)
  then show "(of_int n :: rat) < 2 powi (bitlen n)" using ge1 by (simp add: power_int_def)
qed

lemma ilog2_bounds:
  assumes "0 < x"
  shows "2 powi (ilog2 x) \<le> x" "x < 2 powi (ilog2 x + 1)"
proof -
  obtain n d where q: "quotient_of x = (n, d)" by (cases "quotient_of x")
  have d: "0 < d" using q by (rule quotient_of_denom_pos)
  have x: "x = of_int n / of_int d" using q by (rule quotient_of_div)
  have n: "0 < n" using assms d x by (simp add: zero_less_divide_iff)
  note bn = bitlen_powi_bounds[OF n] and bd = bitlen_powi_bounds[OF d]
  let ?e = "bitlen n - bitlen d"
  have dpos: "(0::rat) < of_int d" using d by simp
  have lo: "2 powi (?e - 1) \<le> x"
  proof -
    have "2 powi (?e - 1) * (of_int d :: rat) \<le> 2 powi (?e - 1) * 2 powi (bitlen d)"
      using bd(2) by (simp add: mult_left_mono)
    also have "\<dots> = 2 powi (bitlen n - 1)"
      by (simp add: power_int_add [symmetric])
    also have "\<dots> \<le> of_int n" by (rule bn(1))
    finally show ?thesis using dpos by (simp add: x pos_le_divide_eq)
  qed
  have hi: "x < 2 powi (?e + 1)"
  proof -
    have "(of_int n :: rat) < 2 powi (bitlen n)" by (rule bn(2))
    also have "\<dots> = 2 powi (?e + 1) * 2 powi (bitlen d - 1)"
      by (simp add: power_int_add [symmetric])
    also have "\<dots> \<le> 2 powi (?e + 1) * of_int d"
      using bd(1) by (simp add: mult_left_mono)
    finally show ?thesis using dpos by (simp add: x pos_divide_less_eq)
  qed
  show "2 powi (ilog2 x) \<le> x" using lo by (simp add: ilog2_def q Let_def)
  show "x < 2 powi (ilog2 x + 1)" using hi by (auto simp add: ilog2_def q not_le Let_def)
qed

datatype py_error = ValueError | KeyError | ZeroDivisionError | OverflowError

definition py_truediv :: "int \<Rightarrow> int \<Rightarrow> py_error + rat" where
  "py_truediv a b =
     (if b = 0 then Inl ZeroDivisionError
      else let r = double_of (of_int a / of_int b)
           in if 2 ^ 1024 \<le> \<bar>r\<bar> then Inl OverflowError else Inr r)"

definition n_files_of :: "int \<Rightarrow> int \<Rightarrow> py_error + int" where
  "n_files_of n_events events_per_file =
     (case py_truediv n_events events_per_file of
        Inl e \<Rightarrow> Inl e
      | Inr q \<Rightarrow> Inr (max 1 \<lceil>q\<rceil>))"

lemma ilog2_less:
  assumes "0 < x" "x < 2 powi k"
  shows "ilog2 x < k"
proof (rule ccontr)
  assume "\<not> ilog2 x < k"
  then have "k \<le> ilog2 x" by simp
  then have "(2::rat) powi k \<le> 2 powi (ilog2 x)" by (simp add: power_int_increasing)
  with ilog2_bounds(1)[OF assms(1)] assms(2) show False by simp
qed

lemma ilog2_ge:
  assumes "0 < x" "2 powi k \<le> x"
  shows "k \<le> ilog2 x"
proof (rule ccontr)
  assume "\<not> k \<le> ilog2 x"
  then have "ilog2 x + 1 \<le> k" by simp
  then have "(2::rat) powi (ilog2 x + 1) \<le> 2 powi k" by (simp add: power_int_increasing)
  with ilog2_bounds(2)[OF assms(1)] assms(2) show False by simp
qed

lemma double_of_small_quotient:
  assumes n: "0 < n" "n < 2 ^ 53" and d: "1 \<le> d"
  defines "q \<equiv> (of_int n / of_int d :: rat)"
  shows "max 1 \<lceil>double_of q\<rceil> = max 1 \<lceil>q\<rceil>" "\<bar>double_of q\<bar> < 2 ^ 1024"
proof -
  have dpos: "(0::rat) < of_int d" using d by simp
  have qpos: "0 < q" using n d by (simp add: q_def)
  have q_le_n: "q \<le> of_int n"
    using n d by (simp add: q_def pos_divide_le_eq mult_le_cancel_left1 dpos)
  have "q < 2 powi 53" using q_le_n n(2) 
    by (metis (no_types) le_less_trans of_int_less_iff of_int_numeral of_int_power power_int_numeral numeral_power_eq_of_nat_cancel_iff nat_numeral)
  then have l53: "ilog2 q < 53" by (rule ilog2_less[OF qpos])
  define e where "e = max (ilog2 q) (- 1022)"
  define U :: int where "U = 2 ^ nat (52 - e)"
  have e52: "e \<le> 52" using l53 by (simp add: e_def)
  have Upos: "0 < U" by (simp add: U_def)
  have ulp: "double_ulp q = 1 / of_int U"
    using e52 qpos by (simp add: double_ulp_def e_def[symmetric] U_def power_int_def field_simps) 
  define m where "m = round_half_even (q * of_int U)"
  have dq: "double_of q = of_int m / of_int U"
    using qpos by (simp add: double_of_def ulp m_def)
  define k where "k = \<lceil>q\<rceil>"
  have k1: "1 \<le> k" using qpos by (simp add: k_def)
  have kq: "of_int (k - 1) < q" "q \<le> of_int k" by (simp_all add: k_def ceiling_correct [simplified])
  have m_lo: "(k - 1) * U \<le> m"
    unfolding m_def using kq(1) Upos by (intro round_half_even_ge) (simp add: mult_right_mono)
  have m_hi: "m \<le> k * U"
    unfolding m_def using kq(2) Upos by (intro round_half_even_le) (simp add: mult_right_mono)
  have r_lo: "of_int (k - 1) \<le> double_of q"
  proof -
    have "(of_int ((k - 1) * U) :: rat) \<le> of_int m" using m_lo by (simp only: of_int_le_iff)
    then show ?thesis using Upos unfolding dq by (simp add: pos_le_divide_eq)
  qed
  have r_hi: "double_of q \<le> of_int k"
  proof -
    have "(of_int m :: rat) \<le> of_int (k * U)" using m_hi by (simp only: of_int_le_iff)
    then show ?thesis using Upos unfolding dq by (simp add: pos_divide_le_eq)
  qed
  have k_le_n: "k \<le> n" unfolding k_def using q_le_n by (simp add: ceiling_le_iff)
  have "(0::rat) \<le> of_int (k - 1)" using k1 by simp
  with r_lo have r_nonneg: "0 \<le> double_of q" by (rule order_trans[rotated])
  have "(of_int k :: rat) \<le> of_int n" using k_le_n by (simp only: of_int_le_iff)
  with r_hi have "double_of q \<le> of_int n" by (rule order_trans)
  also have "(of_int n :: rat) < of_int (2 ^ 53)" using n(2) by (simp only: of_int_less_iff)
  also have "(of_int (2 ^ 53) :: rat) = 2 ^ 53" by (simp only: of_int_power of_int_numeral)
  also have "(2::rat) ^ 53 < 2 ^ 1024" by (rule power_strict_increasing) simp_all
  finally have "double_of q < 2 ^ 1024" .
  then show "\<bar>double_of q\<bar> < 2 ^ 1024" using r_nonneg by (simp only: abs_of_nonneg)
  have c_hi: "\<lceil>double_of q\<rceil> \<le> k" using r_hi by (simp add: ceiling_le_iff)
  show "max 1 \<lceil>double_of q\<rceil> = max 1 \<lceil>q\<rceil>"
  proof (cases "k = 1")
    case True
    then show ?thesis using c_hi by (simp add: k_def[symmetric])
  next
    case False
    then have k2: "2 \<le> k" using k1 by simp
    have "1 \<le> k - 1" using k2 by simp
    then have "(of_int 1 :: rat) \<le> of_int (k - 1)" by (simp only: of_int_le_iff)
    then have "(1::rat) \<le> of_int (k - 1)" by (simp only: of_int_1)
    with kq(1) have "1 \<le> q" by linarith
    then have "(2::rat) powi 0 \<le> q" by simp
    then have e0: "0 \<le> ilog2 q" by (rule ilog2_ge[OF qpos])
    then have e_eq: "e = ilog2 q" by (simp add: e_def)
    have "2 powi e \<le> q" unfolding e_eq by (rule ilog2_bounds(1)[OF qpos])
    then have "of_int d * (2::rat) ^ nat e \<le> of_int n"
      using e0 dpos by (simp add: q_def e_eq power_int_def pos_le_divide_eq mult.commute)
    then have "(of_int (d * 2 ^ nat e) :: rat) \<le> of_int n" by simp
    then have "d * 2 ^ nat e \<le> n" by (simp only: of_int_le_iff)
    then have "d * 2 ^ nat e < 2 ^ 53" using n(2) by simp
    moreover have "(2::int) ^ 53 = 2 * U * 2 ^ nat e"
    proof -
      have "Suc (nat (52 - e) + nat e) = 53" using e0 e52 unfolding e_eq by simp
      then have "(2::int) ^ 53 = 2 ^ Suc (nat (52 - e) + nat e)" by (simp only:)
      also have "\<dots> = 2 * U * 2 ^ nat e" by (simp only: U_def power_Suc power_add mult.assoc)
      finally show ?thesis .
    qed
    ultimately have "d * 2 ^ nat e < (2 * U) * 2 ^ nat e" by (simp only:)
    then have d2U: "d < 2 * U" by (simp only: mult_less_cancel_right_pos zero_less_power zero_less_numeral)
    have "1 \<le> n - (k - 1) * d"
    proof -
      have "of_int (k - 1) * of_int d < (of_int n :: rat)"
        using kq(1) dpos by (simp add: q_def pos_less_divide_eq)
      then have "(of_int ((k - 1) * d) :: rat) < of_int n" by simp
      then have "(k - 1) * d < n" by (simp only: of_int_less_iff)
      then show ?thesis by simp
    qed
    then have "(of_int 1 :: rat) \<le> of_int (n - (k - 1) * d)" by (simp only: of_int_le_iff)
    then have "(1::rat) \<le> of_int (n - (k - 1) * d)" by (simp only: of_int_1)
    then have "1 / of_int d \<le> q - of_int (k - 1)"
      using dpos by (simp add: q_def field_simps)
    then have "1 / of_int d * of_int U \<le> (q - of_int (k - 1)) * of_int U"
      using Upos by (intro mult_right_mono) simp_all
    then have "of_int U / of_int d \<le> (q - of_int (k - 1)) * of_int U" by simp
    moreover have "1 / 2 < (of_int U :: rat) / of_int d"
    proof -
      have "(of_int d :: rat) < of_int (2 * U)" using d2U by (simp only: of_int_less_iff)
      then show ?thesis using dpos by (simp add: pos_less_divide_eq)
    qed
    ultimately have "1 / 2 < (q - of_int (k - 1)) * of_int U" by (rule less_le_trans[rotated])
    moreover have "(q - of_int (k - 1)) * of_int U = q * of_int U - of_int ((k - 1) * U)"
      by (simp add: algebra_simps)
    ultimately have "of_int ((k - 1) * U) + 1 / 2 < q * of_int U" by linarith
    with round_half_even_near(1)[of "q * of_int U"] have "(of_int ((k - 1) * U) :: rat) < of_int m"
      unfolding m_def by linarith
    then have "(k - 1) * U < m" by (simp only: of_int_less_iff)
    then have "(of_int ((k - 1) * U) :: rat) < of_int m" by (simp only: of_int_less_iff)
    then have "of_int (k - 1) < double_of q"
      using Upos unfolding dq by (simp add: pos_less_divide_eq)
    then have "k - 1 < \<lceil>double_of q\<rceil>" by (simp add: less_ceiling_iff)
    then have "\<lceil>double_of q\<rceil> = k" using c_hi by simp
    then show ?thesis by (simp add: k_def)
  qed
qed


section \<open>Strings and numbers as text\<close>

definition digit_char :: "int \<Rightarrow> char" where
  "digit_char d = ''0123456789abcdef'' ! nat d"

function str_digits :: "int \<Rightarrow> string" where
  "str_digits n =
     (if n < 10 then [digit_char n] else str_digits (n div 10) @ [digit_char (n mod 10)])"
  by pat_completeness auto
termination
  by (relation "measure nat") auto

declare str_digits.simps [simp del]

definition str_int :: "int \<Rightarrow> string" where
  "str_int i = (if i < 0 then CHR ''-'' # str_digits (- i) else str_digits i)"

definition zfill :: "nat \<Rightarrow> string \<Rightarrow> string" where
  "zfill w s = replicate (w - length s) CHR ''0'' @ s"

definition is_digit :: "char \<Rightarrow> bool" where
  "is_digit c = (c \<in> set ''0123456789'')"

definition digit_value :: "char \<Rightarrow> int" where
  "digit_value c = int (of_char c) - 48"


section \<open>Calendar\<close>

record datetime =
  year :: int
  month :: int
  day :: int
  hour :: int
  minute :: int
  second :: int

definition MAXORDINAL :: int where
  "MAXORDINAL = 3652059"

definition is_leap :: "int \<Rightarrow> bool" where
  "is_leap y = (y mod 4 = 0 \<and> (y mod 100 \<noteq> 0 \<or> y mod 400 = 0))"

definition DAYS_IN_MONTH :: "int list" where
  "DAYS_IN_MONTH = [- 1, 31, 28, 31, 30, 31, 30, 31, 31, 30, 31, 30, 31]"

definition DAYS_BEFORE_MONTH :: "int list" where
  "DAYS_BEFORE_MONTH = [- 1, 0, 31, 59, 90, 120, 151, 181, 212, 243, 273, 304, 334]"

definition days_before_year :: "int \<Rightarrow> int" where
  "days_before_year y = (y - 1) * 365 + (y - 1) div 4 - (y - 1) div 100 + (y - 1) div 400"

definition days_in_month :: "int \<Rightarrow> int \<Rightarrow> int" where
  "days_in_month y m = (if m = 2 \<and> is_leap y then 29 else DAYS_IN_MONTH ! nat m)"

definition days_before_month :: "int \<Rightarrow> int \<Rightarrow> int" where
  "days_before_month y m = DAYS_BEFORE_MONTH ! nat m + (if 2 < m \<and> is_leap y then 1 else 0)"

definition ymd2ord :: "int \<Rightarrow> int \<Rightarrow> int \<Rightarrow> int" where
  "ymd2ord y m d = days_before_year y + days_before_month y m + d"

definition ord2ymd :: "int \<Rightarrow> int \<times> int \<times> int" where
  "ord2ymd n0 =
     (let n = n0 - 1;
          n400 = n div 146097; n = n mod 146097;
          n100 = n div 36524; n = n mod 36524;
          n4 = n div 1461; n = n mod 1461;
          n1 = n div 365; n = n mod 365;
          y = n400 * 400 + 1 + n100 * 100 + n4 * 4 + n1
      in if n1 = 4 \<or> n100 = 4 then (y - 1, 12, 31)
         else
           let leapyear = (n1 = 3 \<and> (n4 \<noteq> 24 \<or> n100 = 3));
               m = (n + 50) div 32;
               preceding = DAYS_BEFORE_MONTH ! nat m + (if 2 < m \<and> leapyear then 1 else 0)
           in if n < preceding
              then let m' = m - 1;
                       preceding' = preceding
                         - (DAYS_IN_MONTH ! nat m' + (if m' = 2 \<and> leapyear then 1 else 0))
                   in (y, m', n - preceding' + 1)
              else (y, m, n - preceding + 1))"


definition timedelta_add :: "datetime \<Rightarrow> int \<Rightarrow> int \<Rightarrow> py_error + datetime" where
  "timedelta_add t days seconds =
     (let s = hour t * 3600 + minute t * 60 + second t + seconds;
          n = ymd2ord (year t) (month t) (day t) + days + s div 86400;
          r = s mod 86400
      in if 0 < n \<and> n \<le> MAXORDINAL
         then (case ord2ymd n of (y, m, d) \<Rightarrow>
                 Inr \<lparr>year = y, month = m, day = d,
                      hour = r div 3600, minute = r mod 3600 div 60, second = r mod 3600 mod 60\<rparr>)
         else Inl OverflowError)"

definition fmt_0d :: "nat \<Rightarrow> int \<Rightarrow> string" where
  "fmt_0d w i = (if i < 0 then CHR ''-'' # zfill (w - 1) (str_digits (- i)) else zfill w (str_digits i))"

definition strftime_ymd :: "datetime \<Rightarrow> string" where
  "strftime_ymd t = fmt_0d 4 (year t) @ ''-'' @ fmt_0d 2 (month t) @ ''-'' @ fmt_0d 2 (day t)"

definition isoformat :: "datetime \<Rightarrow> string" where
  "isoformat t =
     fmt_0d 4 (year t) @ ''-'' @ fmt_0d 2 (month t) @ ''-'' @ fmt_0d 2 (day t) @ ''T'' @
     fmt_0d 2 (hour t) @ '':'' @ fmt_0d 2 (minute t) @ '':'' @ fmt_0d 2 (second t)"

definition month_token :: "string \<Rightarrow> int option" where
  "month_token s =
     (case s of
        [a, b] \<Rightarrow>
          if a = CHR ''1'' \<and> b \<in> set ''012'' then Some (10 + digit_value b)
          else if a = CHR ''0'' \<and> b \<in> set ''123456789'' then Some (digit_value b)
          else None
      | [a] \<Rightarrow> if a \<in> set ''123456789'' then Some (digit_value a) else None
      | _ \<Rightarrow> None)"

definition day_token :: "string \<Rightarrow> int option" where
  "day_token s =
     (case s of
        [a, b] \<Rightarrow>
          if a = CHR ''3'' \<and> b \<in> set ''01'' then Some (30 + digit_value b)
          else if a \<in> set ''12'' \<and> is_digit b then Some (10 * digit_value a + digit_value b)
          else if a = CHR ''0'' \<and> b \<in> set ''123456789'' then Some (digit_value b)
          else if a = CHR '' '' \<and> b \<in> set ''123456789'' then Some (digit_value b)
          else None
      | [a] \<Rightarrow> if a \<in> set ''123456789'' then Some (digit_value a) else None
      | _ \<Rightarrow> None)"

definition strptime_ymd :: "string \<Rightarrow> py_error + datetime" where
  "strptime_ymd s =
     (case s of
        y1 # y2 # y3 # y4 # dash # rest \<Rightarrow>
          if is_digit y1 \<and> is_digit y2 \<and> is_digit y3 \<and> is_digit y4 \<and> dash = CHR ''-''
          then
            (case dropWhile (\<lambda>c. c \<noteq> CHR ''-'') rest of
               sep # dtok \<Rightarrow>
                 (case (month_token (takeWhile (\<lambda>c. c \<noteq> CHR ''-'') rest), day_token dtok) of
                    (Some m, Some d) \<Rightarrow>
                      let y = 1000 * digit_value y1 + 100 * digit_value y2
                              + 10 * digit_value y3 + digit_value y4
                      in if 1 \<le> y \<and> d \<le> days_in_month y m
                         then Inr \<lparr>year = y, month = m, day = d, hour = 0, minute = 0, second = 0\<rparr>
                         else Inl ValueError
                  | _ \<Rightarrow> Inl ValueError)
             | [] \<Rightarrow> Inl ValueError)
          else Inl ValueError
      | _ \<Rightarrow> Inl ValueError)"


section \<open>Random sources\<close>

record entropy =
  mt :: "nat \<Rightarrow> int"
  os_urandom :: "nat \<Rightarrow> int"

definition randbelow :: "int \<Rightarrow> entropy \<Rightarrow> int \<times> entropy" where
  "randbelow n s = (mt s 0 mod n, s\<lparr>mt := \<lambda>i. mt s (Suc i)\<rparr>)"

definition random_random :: "entropy \<Rightarrow> rat \<times> entropy" where
  "random_random s = (of_int (mt s 0 mod 2 ^ 53) / 2 ^ 53, s\<lparr>mt := \<lambda>i. mt s (Suc i)\<rparr>)"

definition randint :: "int \<Rightarrow> int \<Rightarrow> entropy \<Rightarrow> int \<times> entropy" where
  "randint a b s = (case randbelow (b - a + 1) s of (k, s') \<Rightarrow> (a + k, s'))"

definition choice :: "'a list \<Rightarrow> entropy \<Rightarrow> 'a \<times> entropy" where
  "choice xs s = (case randbelow (int (length xs)) s of (i, s') \<Rightarrow> (xs ! nat i, s'))"

fun accumulate :: "int \<Rightarrow> int list \<Rightarrow> int list" where
  "accumulate acc [] = []"
| "accumulate acc (w # ws) = (acc + w) # accumulate (acc + w) ws"

definition choices1 :: "'a list \<Rightarrow> int list \<Rightarrow> entropy \<Rightarrow> 'a \<times> entropy" where
  "choices1 population weights s =
     (case random_random s of (u, s') \<Rightarrow>
        let cum_weights = accumulate 0 weights;
            total = of_int (last cum_weights);
            x = double_of (u * total);
            hi = length population - 1;
            i = length (takeWhile (\<lambda>c. of_int c \<le> x) (take hi cum_weights))
        in (population ! i, s'))"

definition uniform :: "rat \<Rightarrow> rat \<Rightarrow> entropy \<Rightarrow> rat \<times> entropy" where
  "uniform a b s =
     (case random_random s of (u, s') \<Rightarrow>
        (double_of (a + double_of (double_of (b - a) * u)), s'))"

function isqrt :: "int \<Rightarrow> int" where
  "isqrt n = (if n \<le> 0 then 0
              else let r = 2 * isqrt (n div 4) in if (r + 1) * (r + 1) \<le> n then r + 1 else r)"
  by pat_completeness auto
termination
  by (relation "measure nat") auto

declare isqrt.simps [simp del]

definition double_sqrt :: "rat \<Rightarrow> rat" where
  "double_sqrt x =
     (if x \<le> 0 then 0
      else let u = 2 powi (ilog2 x div 2 - 52);
               y = x / (u * u);
               f = isqrt \<lfloor>y\<rfloor>;
               h = of_int (f * f + f) + 1 / 4;
               m = (if y < h then f else if h < y then f + 1 else if even f then f else f + 1)
           in of_int m * u)"

definition triangular :: "rat \<Rightarrow> rat \<Rightarrow> rat \<Rightarrow> entropy \<Rightarrow> rat \<times> entropy" where
  "triangular low high mode s =
     (case random_random s of (u, s') \<Rightarrow>
        if high = low then (low, s')
        else
          let c = double_of (double_of (mode - low) / double_of (high - low))
          in if c < u
             then let u' = double_of (1 - u); c' = double_of (1 - c)
                  in (double_of (high + double_of (double_of (low - high) * double_sqrt (double_of (u' * c')))), s')
             else (double_of (low + double_of (double_of (high - low) * double_sqrt (double_of (u * c)))), s'))"

definition round2 :: "rat \<Rightarrow> rat" where
  "round2 x = double_of (of_int (round_half_even (x * 100)) / 100)"


definition uuid4_int :: "int \<Rightarrow> int" where
  "uuid4_int b =
     or (and (or (and (b mod 2 ^ 128) (not (push_bit 48 0xc000))) (push_bit 48 0x8000))
             (not (push_bit 64 0xf000)))
        (push_bit 76 4)"

definition hex32 :: "int \<Rightarrow> string" where
  "hex32 v = map (\<lambda>i. digit_char (v div 16 ^ (31 - i) mod 16)) [0..<32]"

definition str_uuid :: "int \<Rightarrow> string" where
  "str_uuid v =
     (let h = hex32 v
      in take 8 h @ ''-'' @ take 4 (drop 8 h) @ ''-'' @ take 4 (drop 12 h) @ ''-''
         @ take 4 (drop 16 h) @ ''-'' @ drop 20 h)"

definition uuid4 :: "entropy \<Rightarrow> string \<times> entropy" where
  "uuid4 s = (str_uuid (uuid4_int (os_urandom s 0)), s\<lparr>os_urandom := \<lambda>i. os_urandom s (Suc i)\<rparr>)"


section \<open>Records\<close>

datatype jval = JNull | JBool bool | JInt int | JFloat rat | JStr string

type_synonym pydict = "(string \<times> jval) list"

definition dict_update :: "pydict \<Rightarrow> (string \<times> jval) list \<Rightarrow> pydict" where
  "dict_update d items = fold (\<lambda>(k, v). AList.update k v) items d"

definition dict_has :: "pydict \<Rightarrow> string \<Rightarrow> bool" where
  "dict_has d k = (map_of d k \<noteq> None)"

definition dict_get :: "pydict \<Rightarrow> string \<Rightarrow> jval option" where
  "dict_get d k = map_of d k"

type_synonym factory = "string \<Rightarrow> entropy \<Rightarrow> py_error + (pydict \<times> entropy)"

definition SOURCES :: "string list" where
  "SOURCES = [''payments'', ''billing'', ''crm'', ''erp'', ''support'']"

definition CURRENCIES :: "string list" where
  "CURRENCIES = [''USD'']"

definition COUNTRIES :: "string list" where
  "COUNTRIES = [''US'', ''CA'', ''GB'', ''DE'', ''FR'', ''IN'', ''AU'', ''SG'']"

definition CARD_NETWORKS :: "string list" where
  "CARD_NETWORKS = [''VISA'', ''MASTERCARD'', ''AMEX'']"

definition POS_ENTRY_MODES :: "string list" where
  "POS_ENTRY_MODES = [''chip'', ''contactless'', ''magstripe'', ''ecommerce'']"

definition PAYMENT_CHANNELS :: "string list" where
  "PAYMENT_CHANNELS =
     [''ach_credit'', ''ach_debit'', ''wire_transfer'', ''card_auth'', ''card_settlement'', ''zelle'']"

definition MCCS :: "(string \<times> string) list" where
  "MCCS = [(''5411'', ''Grocery''), (''5812'', ''Restaurant''), (''5732'', ''Electronics''),
           (''4814'', ''Telecom''), (''5999'', ''Specialty Retail''), (''6011'', ''ATM'')]"

definition SUPPORT_CATEGORIES :: "string list" where
  "SUPPORT_CATEGORIES =
     [''chargeback'', ''card_stolen'', ''login_issue'', ''payment_failed'', ''address_change'',
      ''refund_request'']"

definition SUPPORT_PRIORITIES :: "string list" where
  "SUPPORT_PRIORITIES = [''low'', ''medium'', ''high'', ''urgent'']"

definition CRM_EVENTS :: "string list" where
  "CRM_EVENTS =
     [''kyc_verified'', ''kyc_pending'', ''kyc_refresh_due'', ''address_update'', ''phone_update'',
      ''account_locked'', ''login'']"

definition ERP_JOURNALS :: "string list" where
  "ERP_JOURNALS =
     [''payments_settlement'', ''card_interchange'', ''fees_accrual'', ''refunds'', ''chargebacks'',
      ''revenue_recognition'']"

definition GL_ACCOUNTS :: "string list" where
  "GL_ACCOUNTS =
     [''1000-Cash'', ''1100-Receivables'', ''2000-DepositsLiability'', ''4000-InterchangeRevenue'',
      ''5000-FeesExpense'', ''5100-Refunds'']"

definition UPPER :: string where
  "UPPER = ''ABCDEFGHIJKLMNOPQRSTUVWXYZ''"

definition UPPER_DIGITS :: string where
  "UPPER_DIGITS = ''ABCDEFGHIJKLMNOPQRSTUVWXYZ0123456789''"

definition rand_ts_for_day :: "string \<Rightarrow> entropy \<Rightarrow> py_error + (datetime \<times> entropy)" where
  "rand_ts_for_day day_str s =
     (case strptime_ymd day_str of
        Inl e \<Rightarrow> Inl e
      | Inr day_start \<Rightarrow>
          let (secs, s1) = randint 0 86399 s
          in (case timedelta_add day_start 0 secs of
                Inl e \<Rightarrow> Inl e
              | Inr ts \<Rightarrow> Inr (ts, s1)))"

definition base_record :: "string \<Rightarrow> string \<Rightarrow> entropy \<Rightarrow> py_error + (pydict \<times> entropy)" where
  "base_record day_str source s =
     (case rand_ts_for_day day_str s of
        Inl e \<Rightarrow> Inl e
      | Inr (ts, s1) \<Rightarrow>
          let (event_id, s2) = uuid4 s1;
              (user_id, s3) = randint 1000 500000 s2;
              (currency, s4) = choice CURRENCIES s3
          in Inr (dict_update []
                    [(''event_id'', JStr event_id),
                     (''user_id'', JInt user_id),
                     (''currency'', JStr currency),
                     (''source_system'', JStr source),
                     (''timestamp'', JStr (isoformat ts @ ''Z''))], s4))"

definition rand_amount :: "rat \<Rightarrow> rat \<Rightarrow> bool \<Rightarrow> entropy \<Rightarrow> rat \<times> entropy" where
  "rand_amount lo hi purchase s =
     (if purchase
      then let (x, s1) = triangular 5 60 300 s in (round2 x, s1)
      else let (x, s1) = uniform lo hi s in (round2 x, s1))"

primrec join_randint :: "nat \<Rightarrow> entropy \<Rightarrow> string \<times> entropy" where
  "join_randint 0 s = ([], s)"
| "join_randint (Suc k) s =
     (let (d, s1) = randint 0 9 s; (rest, s2) = join_randint k s1 in (str_int d @ rest, s2))"

primrec join_choice :: "nat \<Rightarrow> string \<Rightarrow> entropy \<Rightarrow> string \<times> entropy" where
  "join_choice 0 alphabet s = ([], s)"
| "join_choice (Suc k) alphabet s =
     (let (c, s1) = choice alphabet s; (rest, s2) = join_choice k alphabet s1 in (c # rest, s2))"

definition nine_digits :: "entropy \<Rightarrow> string \<times> entropy" where
  "nine_digits = join_randint 9"

definition pan_last4 :: "entropy \<Rightarrow> string \<times> entropy" where
  "pan_last4 = join_randint 4"

definition swift_bic :: "entropy \<Rightarrow> string \<times> entropy" where
  "swift_bic s =
     (let (bank, s1) = join_choice 4 UPPER s;
          (country, s2) = choice [''US'', ''GB'', ''DE'', ''FR'', ''CA'', ''IN'', ''AU'', ''SG''] s1;
          (branch, s3) = join_choice 2 UPPER_DIGITS s2
      in (bank @ country @ branch, s3))"

definition mask_iban :: "entropy \<Rightarrow> string \<times> entropy" where
  "mask_iban s = (let (tail, s1) = join_choice 10 UPPER_DIGITS s in (''****'' @ tail, s1))"

definition merchant :: "entropy \<Rightarrow> pydict \<times> entropy" where
  "merchant s =
     (let (m, s1) = choice MCCS s;
          (u, s2) = uuid4 s1;
          (name, s3) = choice [''Acme Stores'', ''MetroMart'', ''Cafe Aurora'', ''TechHub'',
                               ''TelcoMax'', ''Global ATM''] s2;
          (country, s4) = choice COUNTRIES s3
      in (dict_update []
            [(''merchant_id'', JStr (take 8 u)),
             (''merchant_name'', JStr name),
             (''merchant_country'', JStr country),
             (''mcc'', JStr (fst m)),
             (''category'', JStr (snd m))], s4))"

definition gen_payments :: factory where
  "gen_payments day_str s =
     (case base_record day_str ''payments'' s of
        Inl e \<Rightarrow> Inl e
      | Inr (base, s1) \<Rightarrow>
          let (channel, s2) = choices1 PAYMENT_CHANNELS [20, 20, 10, 25, 20, 5] s1;
              (status, s3) = choices1 [''posted'', ''pending'', ''failed''] [80, 17, 3] s2
          in if channel \<in> set [''card_auth'', ''card_settlement'']
             then
               let (m, s4) = merchant s3;
                   (amt, s5) = rand_amount 1 500 True s4;
                   (card_network, s6) = choice CARD_NETWORKS s5;
                   (last4, s7) = pan_last4 s6;
                   (card_present, s8) = choice [True, False] s7;
                   (pos_entry_mode, s9) = choice POS_ENTRY_MODES s8;
                   (approval_code, s10) =
                     (if status \<noteq> ''failed''
                      then let (u, t) = uuid4 s9 in (JStr (take 6 u), t)
                      else (JNull, s9));
                   (decline_reason, s11) =
                     (if status \<noteq> ''failed'' then (JNull, s10)
                      else let (r, t) = choice [''insufficient_funds'', ''suspected_fraud'',
                                                ''do_not_honor''] s10
                           in (JStr r, t))
               in Inr (dict_update base
                         ([(''event_type'', JStr channel),
                           (''amount'', JFloat amt),
                           (''card_network'', JStr card_network),
                           (''pan_last4'', JStr last4),
                           (''card_present'', JBool card_present),
                           (''pos_entry_mode'', JStr pos_entry_mode)]
                          @ m @
                          [(''approval_code'', approval_code),
                           (''decline_reason'', decline_reason),
                           (''status'', JStr status)]), s11)
             else if channel \<in> set [''ach_credit'', ''ach_debit'']
             then
               let (amt, s4) = rand_amount 5 2000 False s3;
                   (routing_number, s5) = nine_digits s4;
                   (account_last4, s6) = pan_last4 s5;
                   (counterparty_name, s7) =
                     choice [''Payroll Inc'', ''Utility Co'', ''John Smith'', ''Jane Doe''] s6;
                   (u, s8) = uuid4 s7
               in Inr (dict_update base
                         [(''event_type'', JStr channel),
                          (''amount'', JFloat (if channel = ''ach_credit'' then amt else - amt)),
                          (''routing_number'', JStr routing_number),
                          (''account_last4'', JStr account_last4),
                          (''counterparty_name'', JStr counterparty_name),
                          (''trace_number'', JStr (take 12 u)),
                          (''status'', JStr status)], s8)
             else if channel = ''wire_transfer''
             then
               let (amt, s4) = rand_amount 100 10000 False s3;
                   (signed, s5) = choice [amt, - amt] s4;
                   (bic, s6) = swift_bic s5;
                   (iban, s7) = mask_iban s6;
                   (is_international, s8) = choice [True, False] s7
               in Inr (dict_update base
                         [(''event_type'', JStr ''wire_transfer''),
                          (''amount'', JFloat signed),
                          (''swift_bic'', JStr bic),
                          (''iban_masked'', JStr iban),
                          (''is_international'', JBool is_international),
                          (''fees'', JFloat (round2 (double_of (amt * double_of (3 / 1000))))),
                          (''status'', JStr status)], s8)
             else
               let (amt, s4) = rand_amount 5 500 False s3;
                   (signed, s5) = choice [amt, - amt] s4;
                   (counterparty_alias, s6) =
                     choice [''+1-202-555-0101'', ''friend@example.com'', ''$roommate''] s5
               in Inr (dict_update base
                         [(''event_type'', JStr ''zelle_payment''),
                          (''amount'', JFloat signed),
                          (''counterparty_alias'', JStr counterparty_alias),
                          (''status'', JStr status)], s6))"


definition gen_billing :: factory where
  "gen_billing day_str s =
     (case base_record day_str ''billing'' s of
        Inl e \<Rightarrow> Inl e
      | Inr (base, s1) \<Rightarrow>
          let (status, s2) = choices1 [''open'', ''paid'', ''overdue'', ''refunded''] [40, 45, 10, 5] s1;
              (u, s3) = uuid4 s2
          in (case rand_ts_for_day day_str s3 of
                Inl e \<Rightarrow> Inl e
              | Inr (issued, s4) \<Rightarrow>
                  let (days, s5) = choice [7, 14, 30] s4
                  in (case timedelta_add issued days 0 of
                        Inl e \<Rightarrow> Inl e
                      | Inr due \<Rightarrow>
                          let (amt, s6) = rand_amount 20 2000 False s5;
                              (paid, s7) =
                                (if status \<in> set [''paid'', ''refunded''] then (amt, s6)
                                 else let (f, t) = choice [0, 1 / 4, 1 / 2, 3 / 4] s6
                                      in (round2 (double_of (amt * f)), t));
                              (event_type, s8) =
                                choice [''invoice_issued'', ''invoice_paid'', ''refund_issued''] s7;
                              (tax_rate, s9) =
                                choice [0, double_of (5 / 100), double_of (7 / 100),
                                        double_of (1 / 10)] s8;
                              (line_count, s10) = randint 1 5 s9
                          in Inr (dict_update base
                                    [(''event_type'', JStr event_type),
                                     (''invoice_id'', JStr (''INV-'' @ take 8 u)),
                                     (''invoice_date'', JStr (isoformat issued @ ''Z'')),
                                     (''due_date'', JStr (isoformat due @ ''Z'')),
                                     (''status'', JStr status),
                                     (''amount'',
                                      JFloat (if event_type \<noteq> ''refund_issued'' then amt else - paid)),
                                     (''amount_due'', JFloat (max 0 (double_of (amt - paid)))),
                                     (''amount_paid'', JFloat paid),
                                     (''tax_rate'', JFloat tax_rate),
                                     (''line_count'', JInt line_count)], s10))))"

definition gen_crm :: factory where
  "gen_crm day_str s =
     (case base_record day_str ''crm'' s of
        Inl e \<Rightarrow> Inl e
      | Inr (base, s1) \<Rightarrow>
          let (event_type, s2) = choices1 CRM_EVENTS [25, 10, 5, 20, 15, 5, 20] s1;
              (risk, s3) = randint 1 99 s2;
              (kyc_status, s4) = choice [''pending'', ''verified'', ''refresh_due'', ''blocked''] s3;
              (pep_flag, s5) = choice [False, False, False, True] s4;
              (ip3, s6) = randint 0 255 s5;
              (ip4, s7) = randint 0 255 s6;
              (country, s8) = choice COUNTRIES s7
          in Inr (dict_update base
                    [(''event_type'', JStr event_type),
                     (''amount'', JFloat 0),
                     (''kyc_status'', JStr kyc_status),
                     (''risk_score'', JInt risk),
                     (''pep_flag'', JBool pep_flag),
                     (''ip'', JStr (''192.168.'' @ str_int ip3 @ ''.'' @ str_int ip4)),
                     (''country'', JStr country)], s8))"

definition gen_erp :: factory where
  "gen_erp day_str s =
     (case base_record day_str ''erp'' s of
        Inl e \<Rightarrow> Inl e
      | Inr (base, s1) \<Rightarrow>
          let (journal, s2) = choice ERP_JOURNALS s1;
              (acct, s3) = choice GL_ACCOUNTS s2;
              (amt, s4) = rand_amount 5 5000 False s3;
              (side, s5) = choice [''debit'', ''credit''] s4;
              (entity, s6) = choice [''HQ'', ''NYC'', ''SFO'', ''LON''] s5;
              (posted_by, s7) = choice [''batch_job'', ''integration'', ''analyst''] s6
          in Inr (dict_update base
                    [(''event_type'', JStr ''gl_posting''),
                     (''journal_type'', JStr journal),
                     (''gl_account'', JStr acct),
                     (''debit'', JFloat (if side = ''debit'' then amt else 0)),
                     (''credit'', JFloat (if side = ''credit'' then amt else 0)),
                     (''amount'', JFloat amt),
                     (''entity'', JStr entity),
                     (''posted_by'', JStr posted_by)], s7))"

definition gen_support :: factory where
  "gen_support day_str s =
     (case base_record day_str ''support'' s of
        Inl e \<Rightarrow> Inl e
      | Inr (base, s1) \<Rightarrow>
          let (cat, s2) = choice SUPPORT_CATEGORIES s1;
              (pri, s3) = choices1 SUPPORT_PRIORITIES [50, 30, 15, 5] s2;
              (status, s4) =
                choices1 [''open'', ''in_progress'', ''resolved'', ''closed''] [20, 30, 35, 15] s3;
              (u, s5) = uuid4 s4;
              (channel, s6) = choice [''phone'', ''email'', ''in_app'', ''chat''] s5
          in Inr (dict_update base
                    [(''event_type'',
                      JStr (''ticket_'' @ (if status \<in> set [''resolved'', ''closed'']
                                           then ''closed'' else ''opened''))),
                     (''amount'', JFloat 0),
                     (''ticket_id'', JStr (''TCK-'' @ take 8 u)),
                     (''category'', JStr cat),
                     (''priority'', JStr pri),
                     (''status'', JStr status),
                     (''channel'', JStr channel)], s6))"

definition GEN_BY_SOURCE :: "(string \<times> factory) list" where
  "GEN_BY_SOURCE =
     [(''payments'', gen_payments), (''billing'', gen_billing), (''crm'', gen_crm),
      (''erp'', gen_erp), (''support'', gen_support)]"

section \<open>Paths and the file system\<close>

text \<open>
  A \<open>Path\<close> is the list of its components, as \<open>PurePosixPath.parts\<close> gives them.
  Joining splits the right operand at slashes and drops empty and \<open>.\<close> components; an
  operand that starts with a slash replaces the path. Of the file system the model keeps
  the directories made and, in order, every file written together with the records whose
  JSON lines it holds (\<open>json.dumps\<close> and the encoding are library code and are not
  modelled). Operating-system failures (permissions, full disk) are outside the model.
\<close>

type_synonym path = "string list"

fun split_on :: "char \<Rightarrow> string \<Rightarrow> string list" where
  "split_on c [] = [[]]"
| "split_on c (x # xs) =
     (if x = c then [] # split_on c xs
      else (case split_on c xs of [] \<Rightarrow> [[x]] | p # ps \<Rightarrow> (x # p) # ps))"

definition path_parts :: "string \<Rightarrow> string list" where
  "path_parts s = filter (\<lambda>p. p \<noteq> [] \<and> p \<noteq> ''.'') (split_on CHR ''/'' s)"

definition joinpath :: "path \<Rightarrow> string \<Rightarrow> path" where
  "joinpath p s =
     (case s of
        [] \<Rightarrow> p
      | c # _ \<Rightarrow> if c = CHR ''/'' then ''/'' # path_parts s else p @ path_parts s)"

definition Path :: "string \<Rightarrow> path" where
  "Path s = joinpath [] s"

record world =
  ent :: entropy
  dirs :: "path set"
  written :: "(path \<times> pydict list) list"

definition mkdir_parents :: "path \<Rightarrow> world \<Rightarrow> world" where
  "mkdir_parents p w = w\<lparr>dirs := dirs w \<union> set (map (\<lambda>k. take k p) [1..<Suc (length p)])\<rparr>"

section \<open>Partition writer\<close>

definition ensure_common :: "pydict \<Rightarrow> pydict" where
  "ensure_common rec =
     (let rec1 = (if \<not> dict_has rec ''amount'' then AList.update ''amount'' (JFloat 0) rec else rec)
      in if \<not> dict_has rec1 ''event_type''
         then AList.update ''event_type'' (JStr ''event'') rec1 else rec1)"

definition one_line :: "string \<Rightarrow> string \<Rightarrow> entropy \<Rightarrow> py_error + (pydict \<times> entropy)" where
  "one_line source day_str s =
     (case map_of GEN_BY_SOURCE source of
        None \<Rightarrow> Inl KeyError
      | Some g \<Rightarrow>
          (case g day_str s of
             Inl e \<Rightarrow> Inl e
           | Inr (rec, s1) \<Rightarrow> Inr (ensure_common rec, s1)))"

primrec write_lines :: "string \<Rightarrow> string \<Rightarrow> nat \<Rightarrow> entropy \<Rightarrow> py_error + (pydict list \<times> entropy)" where
  "write_lines source day_str 0 s = Inr ([], s)"
| "write_lines source day_str (Suc k) s =
     (case one_line source day_str s of
        Inl e \<Rightarrow> Inl e
      | Inr (rec, s1) \<Rightarrow>
          (case write_lines source day_str k s1 of
             Inl e \<Rightarrow> Inl e
           | Inr (recs, s2) \<Rightarrow> Inr (rec # recs, s2)))"

definition part_file :: "path \<Rightarrow> nat \<Rightarrow> path" where
  "part_file base i = joinpath base (''part-'' @ fmt_0d 5 (int i) @ ''.json'')"

primrec write_files ::
  "string \<Rightarrow> string \<Rightarrow> path \<Rightarrow> int \<Rightarrow> nat \<Rightarrow> nat \<Rightarrow> int \<Rightarrow> world \<Rightarrow> py_error + world" where
  "write_files day_str source base events_per_file 0 i remaining w = Inr w"
| "write_files day_str source base events_per_file (Suc k) i remaining w =
     (let count = min events_per_file remaining;
          fp = part_file base i
      in case write_lines source day_str (nat count) (ent w) of
           Inl e \<Rightarrow> Inl e
         | Inr (lines, s1) \<Rightarrow>
             write_files day_str source base events_per_file k (Suc i) (remaining - count)
               (w\<lparr>ent := s1, written := written w @ [(fp, lines)]\<rparr>))"

definition partition_dir :: "path \<Rightarrow> string \<Rightarrow> string \<Rightarrow> path" where
  "partition_dir out_dir day_str source =
     joinpath (joinpath out_dir (''day='' @ day_str)) (''source='' @ source)"

definition write_partition ::
  "string \<Rightarrow> string \<Rightarrow> path \<Rightarrow> int \<Rightarrow> int \<Rightarrow> world \<Rightarrow> py_error + (path \<times> world)" where
  "write_partition day_str source out_dir n_events events_per_file w =
     (let base = partition_dir out_dir day_str source;
          w1 = mkdir_parents base w
      in case n_files_of n_events events_per_file of
           Inl e \<Rightarrow> Inl e
         | Inr n_files \<Rightarrow>
             (case write_files day_str source base events_per_file (nat n_files) 0 n_events w1 of
                Inl e \<Rightarrow> Inl e
              | Inr w2 \<Rightarrow> Inr (base, w2)))"

section \<open>Driver\<close>

record args =
  out :: string
  day_arg :: string
  days :: int
  total_events :: int
  events_per_file :: int

definition day_str_back :: "string \<Rightarrow> nat \<Rightarrow> py_error + string" where
  "day_str_back end_day d =
     (case strptime_ymd end_day of
        Inl e \<Rightarrow> Inl e
      | Inr t \<Rightarrow>
          (case timedelta_add t (- int d) 0 of
             Inl e \<Rightarrow> Inl e
           | Inr t' \<Rightarrow> Inr (strftime_ymd t')))"

definition allocation :: "int \<Rightarrow> nat \<Rightarrow> int" where
  "allocation n_total idx =
     (let per_source = n_total div int (length SOURCES);
          remainder = n_total - per_source * int (length SOURCES)
      in per_source + (if int idx < remainder then 1 else 0))"

primrec sources_loop ::
  "args \<Rightarrow> path \<Rightarrow> string \<Rightarrow> (nat \<times> string) list \<Rightarrow> world \<Rightarrow> py_error + world" where
  "sources_loop a out_dir day_str [] w = Inr w"
| "sources_loop a out_dir day_str (p # ps) w =
     (case write_partition day_str (snd p) out_dir (allocation (total_events a) (fst p))
             (events_per_file a) w of
        Inl e \<Rightarrow> Inl e
      | Inr (base, w1) \<Rightarrow> sources_loop a out_dir day_str ps w1)"

primrec days_loop :: "args \<Rightarrow> path \<Rightarrow> nat \<Rightarrow> nat \<Rightarrow> world \<Rightarrow> py_error + world" where
  "days_loop a out_dir 0 d w = Inr w"
| "days_loop a out_dir (Suc k) d w =
     (case day_str_back (day_arg a) d of
        Inl e \<Rightarrow> Inl e
      | Inr day_str \<Rightarrow>
          (case sources_loop a out_dir day_str (enumerate 0 SOURCES) w of
             Inl e \<Rightarrow> Inl e
           | Inr w1 \<Rightarrow> days_loop a out_dir k (Suc d) w1))"

definition main :: "args \<Rightarrow> world \<Rightarrow> py_error + world" where
  "main a w =
     (let out_dir = Path (out a)
      in days_loop a out_dir (nat (days a)) 0 (mkdir_parents out_dir w))"

section \<open>Facts about the calendar\<close>

lemma digit_value_range: "is_digit c \<Longrightarrow> 0 \<le> digit_value c \<and> digit_value c \<le> 9"
  by (auto simp: is_digit_def digit_value_def)

lemma month_token_range: "month_token s = Some m \<Longrightarrow> 1 \<le> m \<and> m \<le> 12"
  by (auto simp: month_token_def digit_value_def split: list.splits if_splits)

lemma day_token_range: "day_token s = Some d \<Longrightarrow> 1 \<le> d \<and> d \<le> 31"
  by (auto simp: day_token_def digit_value_def is_digit_def split: list.splits if_splits)

lemma strptime_ymd_cases:
  assumes "strptime_ymd s = Inr t"
  obtains y1 y2 y3 y4 rest dtok m d where
    "is_digit y1" "is_digit y2" "is_digit y3" "is_digit y4"
    "month_token (takeWhile (\<lambda>c. c \<noteq> CHR ''-'') rest) = Some m" "day_token dtok = Some d"
    "t = \<lparr>year = 1000 * digit_value y1 + 100 * digit_value y2 + 10 * digit_value y3 + digit_value y4,
          month = m, day = d, hour = 0, minute = 0, second = 0\<rparr>"
    "1 \<le> year t" "d \<le> days_in_month (year t) m"
  using assms
  by (auto simp: strptime_ymd_def Let_def split: list.splits if_splits option.splits)

lemma strptime_ymd_valid:
  assumes "strptime_ymd s = Inr t"
  shows "1 \<le> year t \<and> year t \<le> 9999 \<and> 1 \<le> month t \<and> month t \<le> 12 \<and> 1 \<le> day t
         \<and> day t \<le> days_in_month (year t) (month t)
         \<and> hour t = 0 \<and> minute t = 0 \<and> second t = 0"
proof -
  from assms obtain y1 y2 y3 y4 rest dtok m d where
    dg: "is_digit y1" "is_digit y2" "is_digit y3" "is_digit y4"
    and mt: "month_token (takeWhile (\<lambda>c. c \<noteq> CHR ''-'') rest) = Some m"
    and dt: "day_token dtok = Some d"
    and t: "t = \<lparr>year = 1000 * digit_value y1 + 100 * digit_value y2 + 10 * digit_value y3 + digit_value y4,
          month = m, day = d, hour = 0, minute = 0, second = 0\<rparr>"
    and ok: "1 \<le> year t" "d \<le> days_in_month (year t) m"
    by (rule strptime_ymd_cases)
  note r = dg[THEN digit_value_range]
  have "year t \<le> 9999" using r by (simp add: t)
  moreover note month_token_range[OF mt] day_token_range[OF dt] ok
  ultimately show ?thesis by (simp add: t)
qed

lemma div_step:
  fixes x k :: int
  assumes "0 < k"
  shows "(x + 1) div k = x div k + (if (x + 1) mod k = 0 then 1 else 0)"
proof (cases "(x + 1) mod k = 0")
  case True
  then have "x + 1 = k * ((x + 1) div k)" by (simp add: mod_0_imp_dvd)
  then have "x = k * ((x + 1) div k - 1) + (k - 1)" by (simp add: algebra_simps)
  moreover have "((k - 1) + k * ((x + 1) div k - 1)) div k = (x + 1) div k - 1"
    using assms by (simp only: div_mult_self2) (simp add: div_pos_pos_trivial)
  ultimately have "x div k = (x + 1) div k - 1" by (simp add: add.commute)
  with True show ?thesis by simp
next
  case False
  have "0 \<le> x mod k" "x mod k < k" using assms by simp_all
  moreover have "x mod k \<noteq> k - 1"
  proof
    assume "x mod k = k - 1"
    then have "(x mod k + 1) mod k = 0" by simp
    then have "(x + 1) mod k = 0" by (simp add: mod_add_left_eq)
    with False show False by simp
  qed
  ultimately have lt: "x mod k + 1 < k" by simp
  have "x + 1 = k * (x div k) + (x mod k + 1)" by simp
  then have "x + 1 = (x mod k + 1) + k * (x div k)" by (simp add: add.commute)
  moreover have "((x mod k + 1) + k * (x div k)) div k = x div k"
    using lt \<open>0 \<le> x mod k\<close> assms by (simp only: div_mult_self2) (simp add: div_pos_pos_trivial)
  ultimately have "(x + 1) div k = x div k" by simp
  with False show ?thesis by simp
qed

lemma days_before_year_nonneg: "1 \<le> y \<Longrightarrow> 0 \<le> days_before_year y"
proof -
  assume "1 \<le> y"
  then have x: "0 \<le> y - 1" by simp
  have "(y - 1) div 100 \<le> (y - 1) div 4" using x by (intro zdiv_mono2) simp_all
  moreover have "0 \<le> (y - 1) div 400" using x by (simp add: pos_imp_zdiv_nonneg_iff)
  moreover define a b c where "a = (y - 1) div 4" and "b = (y - 1) div 100" and "c = (y - 1) div 400"
  ultimately have "0 \<le> (y - 1) * 365 + a - b + c" using x by simp
  then show ?thesis by (simp add: days_before_year_def a_def b_def c_def)
qed

lemma days_before_year_Suc:
  "days_before_year (y + 1) = days_before_year y + 365 + (if is_leap y then 1 else 0)"
proof -
  have m1: "y mod 4 = 0" if "y mod 100 = 0"
  proof -
    have "(4::int) dvd 100" by simp
    moreover have "100 dvd y" using that by (simp add: mod_0_imp_dvd)
    ultimately have "4 dvd y" by (rule dvd_trans)
    then show ?thesis by simp
  qed
  have m2: "y mod 100 = 0" if "y mod 400 = 0"
  proof -
    have "(100::int) dvd 400" by simp
    moreover have "400 dvd y" using that by (simp add: mod_0_imp_dvd)
    ultimately have "100 dvd y" by (rule dvd_trans)
    then show ?thesis by simp
  qed
  define a b c where "a = (y - 1) div 4" and "b = (y - 1) div 100" and "c = (y - 1) div 400"
  have e4: "y div 4 = a + (if y mod 4 = 0 then 1 else 0)"
    using div_step[of 4 "y - 1"] by (simp add: a_def)
  have e100: "y div 100 = b + (if y mod 100 = 0 then 1 else 0)"
    using div_step[of 100 "y - 1"] by (simp add: b_def)
  have e400: "y div 400 = c + (if y mod 400 = 0 then 1 else 0)"
    using div_step[of 400 "y - 1"] by (simp add: c_def)
  have lin: "(y - 1) * 365 + 365 = y * 365" by (simp add: algebra_simps)
  have "y * 365 + y div 4 - y div 100 + y div 400 =
      (y - 1) * 365 + a - b + c + 365 + (if is_leap y then 1 else 0)"
    unfolding e4 e100 e400 is_leap_def using m1 m2 lin
    by (cases "y mod 4 = 0"; cases "y mod 100 = 0"; cases "y mod 400 = 0") simp_all
  then show ?thesis by (simp add: days_before_year_def a_def b_def c_def)
qed

lemma days_before_year_mono: "y \<le> z \<Longrightarrow> days_before_year y \<le> days_before_year z"
proof (induction z rule: int_ge_induct)
  case base
  show ?case by simp
next
  case (step i)
  have "days_before_year i \<le> days_before_year (i + 1)" by (simp add: days_before_year_Suc)
  with step.IH show ?case by simp
qed

lemma month_cases:
  fixes m :: int
  assumes "1 \<le> m" "m \<le> 12"
  obtains "m = 1" | "m = 2" | "m = 3" | "m = 4" | "m = 5" | "m = 6"
        | "m = 7" | "m = 8" | "m = 9" | "m = 10" | "m = 11" | "m = 12"
proof -
  from assms have "m = 1 \<or> m = 2 \<or> m = 3 \<or> m = 4 \<or> m = 5 \<or> m = 6
        \<or> m = 7 \<or> m = 8 \<or> m = 9 \<or> m = 10 \<or> m = 11 \<or> m = 12" by arith
  then show ?thesis using that by blast
qed

lemma day_of_year_range:
  assumes "1 \<le> m" "m \<le> 12" "1 \<le> d" "d \<le> days_in_month y m"
  shows "1 \<le> days_before_month y m + d \<and>
         days_before_month y m + d \<le> 365 + (if is_leap y then 1 else 0)"
proof (rule month_cases[OF assms(1,2)])
qed (use assms(3,4) in \<open>simp_all add: days_before_month_def days_in_month_def
        DAYS_BEFORE_MONTH_def DAYS_IN_MONTH_def split: if_splits\<close>)

lemma ymd2ord_range:
  assumes "1 \<le> y" "y \<le> 9999" "1 \<le> m" "m \<le> 12" "1 \<le> d" "d \<le> days_in_month y m"
  shows "1 \<le> ymd2ord y m d" "ymd2ord y m d \<le> MAXORDINAL"
proof -
  from day_of_year_range[OF assms(3-6)]
  have r: "1 \<le> days_before_month y m + d"
    "days_before_month y m + d \<le> 365 + (if is_leap y then 1 else 0)" by simp_all
  show "1 \<le> ymd2ord y m d"
    using days_before_year_nonneg[OF assms(1)] r(1) by (simp add: ymd2ord_def)
  have "ymd2ord y m d \<le> days_before_year (y + 1)"
    using r(2) by (simp add: ymd2ord_def days_before_year_Suc)
  also have "\<dots> \<le> days_before_year 10000"
    using assms(2) by (intro days_before_year_mono) simp
  also have "\<dots> = MAXORDINAL" by (simp add: days_before_year_def MAXORDINAL_def)
  finally show "ymd2ord y m d \<le> MAXORDINAL" .
qed

lemma div_decomp:
  fixes k q r :: int
  assumes "0 \<le> r" "r < k"
  shows "(k * q + r) div k = q" "(k * q + r) mod k = r"
  using assms by (simp_all add: div_pos_pos_trivial)

lemma days_before_year_formula:
  assumes "0 \<le> b" "b \<le> 3" "0 \<le> c" "c \<le> 24" "0 \<le> e" "e \<le> 3"
  shows "days_before_year (400 * a + 100 * b + 4 * c + e + 1) =
         146097 * a + 36524 * b + 1461 * c + 365 * e"
proof -
  let ?x = "400 * a + 100 * b + 4 * c + e"
  have "?x = 4 * (100 * a + 25 * b + c) + e" by simp
  then have d4: "?x div 4 = 100 * a + 25 * b + c"
    using div_decomp(1)[of e 4 "100 * a + 25 * b + c"] assms by simp
  have "?x = 100 * (4 * a + b) + (4 * c + e)" by simp
  then have d100: "?x div 100 = 4 * a + b"
    using div_decomp(1)[of "4 * c + e" 100 "4 * a + b"] assms by simp
  have "?x = 400 * a + (100 * b + 4 * c + e)" by simp
  then have d400: "?x div 400 = a"
    using div_decomp(1)[of "100 * b + 4 * c + e" 400 a] assms by simp
  show ?thesis unfolding days_before_year_def using d4 d100 d400 by simp
qed

lemma is_leap_formula:
  assumes "0 \<le> b" "b \<le> 3" "0 \<le> c" "c \<le> 24" "0 \<le> e" "e \<le> 3"
  shows "is_leap (400 * a + 100 * b + 4 * c + e + 1) = (e = 3 \<and> (c \<noteq> 24 \<or> b = 3))"
proof -
  let ?y = "400 * a + 100 * b + 4 * c + e + 1"
  have m4: "?y mod 4 = (e + 1) mod 4"
  proof -
    have "?y = (e + 1) + 4 * (100 * a + 25 * b + c)" by simp
    then show ?thesis by (simp only: mod_mult_self2)
  qed
  have m100: "?y mod 100 = (4 * c + e + 1) mod 100"
  proof -
    have "?y = (4 * c + e + 1) + 100 * (4 * a + b)" by simp
    then show ?thesis by (simp only: mod_mult_self2)
  qed
  have m400: "?y mod 400 = (100 * b + 4 * c + e + 1) mod 400"
  proof -
    have "?y = (100 * b + 4 * c + e + 1) + 400 * a" by simp
    then show ?thesis by (simp only: mod_mult_self2)
  qed
  have e4: "((e + 1) mod 4 = 0) = (e = 3)" using assms(5,6) by arith
  have e100: "((4 * c + e + 1) mod 100 = 0) = (c = 24 \<and> e = 3)" using assms(3-6) by arith
  have e400: "((100 * b + 4 * c + e + 1) mod 400 = 0) = (b = 3 \<and> c = 24 \<and> e = 3)"
    using assms by arith
  show ?thesis unfolding is_leap_def m4 m100 m400 e4 e100 e400 by auto
qed

definition month_of_yday :: "int \<Rightarrow> bool \<Rightarrow> int \<times> int" where
  "month_of_yday n leapyear =
     (let m = (n + 50) div 32;
          preceding = DAYS_BEFORE_MONTH ! nat m + (if 2 < m \<and> leapyear then 1 else 0)
      in if n < preceding
         then (m - 1, preceding - (DAYS_IN_MONTH ! nat (m - 1) + (if m - 1 = 2 \<and> leapyear then 1 else 0)))
         else (m, preceding))"

lemma month_of_yday_table:
  assumes "0 \<le> n" "n < 365"
  shows "case month_of_yday n L of (m, p) \<Rightarrow>
           1 \<le> m \<and> m \<le> 12 \<and> p = DAYS_BEFORE_MONTH ! nat m + (if 2 < m \<and> L then 1 else 0) \<and> p \<le> n"
proof -
  define m where "m = (n + 50) div 32"
  have mm: "1 \<le> m" "m \<le> 12" using assms unfolding m_def by arith+
  have bnd: "32 * m \<le> n + 50" "n + 50 < 32 * m + 32" unfolding m_def by arith+
  show ?thesis
  proof (rule month_cases[OF mm])
  qed (use assms bnd in \<open>auto simp add: month_of_yday_def m_def[symmetric] Let_def DAYS_BEFORE_MONTH_def DAYS_IN_MONTH_def\<close>)
qed

lemma ord2ymd_unfold:
  "ord2ymd n =
     (let n0 = n - 1;
          a = n0 div 146097; r1 = n0 mod 146097;
          b = r1 div 36524; r2 = r1 mod 36524;
          c = r2 div 1461; r3 = r2 mod 1461;
          e = r3 div 365; r = r3 mod 365;
          y = a * 400 + 1 + b * 100 + c * 4 + e
      in if e = 4 \<or> b = 4 then (y - 1, 12, 31)
         else case month_of_yday r (e = 3 \<and> (c \<noteq> 24 \<or> b = 3)) of
                (m, p) \<Rightarrow> (y, m, r - p + 1))"
  unfolding ord2ymd_def month_of_yday_def Let_def
  by (simp only: if_distrib[of "case_prod _"] prod.case cong: if_cong)

lemma ymd2ord_ord2ymd: "(case ord2ymd n of (y, m, d) \<Rightarrow> ymd2ord y m d) = n"
proof -
  define n0 where "n0 = n - 1"
  define a where "a = n0 div 146097"
  define r1 where "r1 = n0 mod 146097"
  define b where "b = r1 div 36524"
  define r2 where "r2 = r1 mod 36524"
  define c where "c = r2 div 1461"
  define r3 where "r3 = r2 mod 1461"
  define e where "e = r3 div 365"
  define r where "r = r3 mod 365"
  define y where "y = a * 400 + 1 + b * 100 + c * 4 + e"
  have y_alt: "y = 400 * a + 100 * b + 4 * c + e + 1" by (simp add: y_def)
  have n0: "n0 = 146097 * a + r1" and r1: "r1 = 36524 * b + r2"
    and r2: "r2 = 1461 * c + r3" and r3: "r3 = 365 * e + r"
    unfolding a_def r1_def b_def r2_def c_def r3_def e_def r_def by simp_all
  have br1: "0 \<le> r1" "r1 < 146097" and br2: "0 \<le> r2" "r2 < 36524"
    and br3: "0 \<le> r3" "r3 < 1461" and br: "0 \<le> r" "r < 365"
    unfolding r1_def r2_def r3_def r_def by simp_all
  have bb: "0 \<le> b" "b \<le> 4" using br1 unfolding b_def by arith+
  have bc: "0 \<le> c" "c \<le> 24" using br2 unfolding c_def by arith+
  have be: "0 \<le> e" "e \<le> 4" using br3 unfolding e_def by arith+
  have o: "ord2ymd n =
     (if e = 4 \<or> b = 4 then (y - 1, 12, 31)
      else case month_of_yday r (e = 3 \<and> (c \<noteq> 24 \<or> b = 3)) of (m, p) \<Rightarrow> (y, m, r - p + 1))"
    unfolding ord2ymd_unfold Let_def y_def r_def e_def r3_def c_def r2_def b_def r1_def a_def n0_def
    by (rule refl)
  show ?thesis
  proof (cases "b = 4")
    case True
    then have "r1 = 146096" "r2 = 0" using r1 br1 br2 by simp_all
    then have "c = 0" "e = 0" "r = 0" unfolding c_def e_def r3_def r_def by simp_all
    have y: "y = 400 * (a + 1) + 100 * 0 + 4 * 0 + 0 + 1"
      unfolding y_alt using True \<open>c = 0\<close> \<open>e = 0\<close> by simp
    have dy: "days_before_year y = 146097 * (a + 1)"
      unfolding y using days_before_year_formula[of 0 0 0 "a + 1"] by simp
    have "ymd2ord (y - 1) 12 31 = days_before_year ((y - 1) + 1)"
      unfolding days_before_year_Suc
      by (simp add: ymd2ord_def days_before_month_def DAYS_BEFORE_MONTH_def)
    also have "\<dots> = n" using dy n0 \<open>r1 = 146096\<close> by (simp add: n0_def)
    finally show ?thesis using True by (simp add: o)
  next
    case b4: False
    then have b3: "b \<le> 3" using bb by simp
    show ?thesis
    proof (cases "e = 4")
      case True
      then have "r3 = 1460" "r = 0" using r3 br3 br by simp_all
      have "c \<le> 23" using r2 br2 \<open>r3 = 1460\<close> by simp
      have y: "y = 400 * a + 100 * b + 4 * (c + 1) + 0 + 1"
        unfolding y_alt using True by simp
      have dy: "days_before_year y = 146097 * a + 36524 * b + 1461 * (c + 1)"
        unfolding y using days_before_year_formula[of b "c + 1" 0 a] bb b3 bc \<open>c \<le> 23\<close> by simp
      have "ymd2ord (y - 1) 12 31 = days_before_year ((y - 1) + 1)"
        unfolding days_before_year_Suc
        by (simp add: ymd2ord_def days_before_month_def DAYS_BEFORE_MONTH_def)
      also have "\<dots> = n" using dy n0 r1 r2 \<open>r3 = 1460\<close> by (simp add: n0_def)
      finally show ?thesis using True by (simp add: o)
    next
      case False
      then have e3: "e \<le> 3" using be by simp
      have dy: "days_before_year y = 146097 * a + 36524 * b + 1461 * c + 365 * e"
        unfolding y_alt by (rule days_before_year_formula) (use bb b3 bc be e3 in simp_all)
      have lp: "is_leap y = (e = 3 \<and> (c \<noteq> 24 \<or> b = 3))"
        unfolding y_alt by (rule is_leap_formula) (use bb b3 bc be e3 in simp_all)
      obtain m p where mp: "month_of_yday r (e = 3 \<and> (c \<noteq> 24 \<or> b = 3)) = (m, p)"
        by (cases "month_of_yday r (e = 3 \<and> (c \<noteq> 24 \<or> b = 3))")
      from month_of_yday_table[OF br, of "e = 3 \<and> (c \<noteq> 24 \<or> b = 3)"]
      have p: "p = DAYS_BEFORE_MONTH ! nat m + (if 2 < m \<and> is_leap y then 1 else 0)"
        unfolding mp lp by simp
      have "ymd2ord y m (r - p + 1) = days_before_year y + r + 1"
        by (simp add: ymd2ord_def days_before_month_def p)
      also have "\<dots> = n" using dy n0 r1 r2 r3 by (simp add: n0_def)
      finally have "(case (y, m, r - p + 1) of (y, m, d) \<Rightarrow> ymd2ord y m d) = n" by simp
      moreover have "ord2ymd n = (y, m, r - p + 1)" unfolding o mp using False b4 by simp
      ultimately show ?thesis by simp
    qed
  qed
qed


section \<open>Facts about dictionaries, draws and amounts\<close>

lemma map_of_dict_update:
  "map_of (dict_update d items) k =
     (case map_of (rev items) k of None \<Rightarrow> map_of d k | Some v \<Rightarrow> Some v)"
proof (induction items arbitrary: d)
  case Nil
  show ?case by (simp add: dict_update_def)
next
  case (Cons kv items)
  obtain k' v' where kv: "kv = (k', v')" by (cases kv)
  have "dict_update d (kv # items) = dict_update (AList.update k' v' d) items"
    by (simp add: dict_update_def kv)
  then show ?case
    using Cons.IH[of "AList.update k' v' d"]
    by (auto simp: kv update_conv' map_of_append split: option.splits)
qed

lemma dict_get_update:
  "dict_get (dict_update d items) k =
     (case map_of (rev items) k of None \<Rightarrow> dict_get d k | Some v \<Rightarrow> Some v)"
  unfolding dict_get_def by (rule map_of_dict_update)

lemma randint_range:
  assumes "a \<le> b"
  shows "a \<le> fst (randint a b s)" "fst (randint a b s) \<le> b"
  using assms by (simp_all add: randint_def randbelow_def split_beta)
     (smt (verit) pos_mod_sign pos_mod_bound)+

lemma round_half_even_nonneg: "0 \<le> x \<Longrightarrow> 0 \<le> round_half_even x"
  using round_half_even_ge[of 0 x] by simp

lemma double_of_nonneg: "0 \<le> x \<Longrightarrow> 0 \<le> double_of x"
  by (auto simp: double_of_def double_ulp_def sgn_if intro!: mult_nonneg_nonneg
      round_half_even_nonneg divide_nonneg_nonneg)

lemma double_of_ge_pow2:
  assumes "2 powi k \<le> x" "- 1022 \<le> k"
  shows "2 powi k \<le> double_of x"
proof -
  have "(0::rat) < 2 powi k" by simp
  then have xpos: "0 < x" using assms(1) by (rule less_le_trans)
  have ke: "k \<le> ilog2 x" using xpos assms(1) by (rule ilog2_ge)
  define e where "e = ilog2 x"
  have e: "max e (- 1022) = e" using ke assms(2) by (simp add: e_def)
  have ulp: "double_ulp x = 2 powi (e - 52)" using xpos e by (simp add: double_ulp_def e_def)
  have "2 powi e \<le> x" unfolding e_def by (rule ilog2_bounds(1)[OF xpos])
  then have "2 powi e / 2 powi (e - 52) \<le> x / 2 powi (e - 52)"
    by (simp add: divide_right_mono)
  moreover have "(2::rat) powi e / 2 powi (e - 52) = 2 ^ 52"
    by (simp add: power_int_diff)
  ultimately have "of_int (2 ^ 52) \<le> x / 2 powi (e - 52)" by simp
  then have "2 ^ 52 \<le> round_half_even (x / 2 powi (e - 52))" by (rule round_half_even_ge)
  then have "(of_int (2 ^ 52) :: rat) \<le> of_int (round_half_even (x / 2 powi (e - 52)))"
    by (simp only: of_int_le_iff)
  then have "(2::rat) ^ 52 \<le> of_int (round_half_even (x / 2 powi (e - 52)))" by simp
  then have m: "(2::rat) ^ 52 * 2 powi (e - 52)
      \<le> of_int (round_half_even (x / 2 powi (e - 52))) * 2 powi (e - 52)"
    by (rule mult_right_mono) simp
  have p: "(2::rat) ^ 52 * 2 powi (e - 52) = 2 powi e"
    by (simp add: power_int_diff)
  have dx: "double_of x = of_int (round_half_even (x / 2 powi (e - 52))) * 2 powi (e - 52)"
    using xpos by (simp add: double_of_def ulp)
  have ee: "2 powi e \<le> double_of x" using m unfolding p dx .
  have "(2::rat) powi k \<le> 2 powi e" using ke by (simp add: e_def power_int_increasing)
  then show ?thesis using ee by (rule order_trans)
qed

lemma round2_ge_one:
  assumes "1 \<le> x"
  shows "1 \<le> round2 x"
proof -
  have "of_int 100 \<le> x * 100" using assms by simp
  then have "100 \<le> round_half_even (x * 100)" by (rule round_half_even_ge)
  then have "(of_int 100 :: rat) \<le> of_int (round_half_even (x * 100))" by (simp only: of_int_le_iff)
  then have "2 powi 0 \<le> (of_int (round_half_even (x * 100)) :: rat) / 100" by simp
  then have "2 powi 0 \<le> round2 x" unfolding round2_def by (rule double_of_ge_pow2) simp
  then show ?thesis by simp
qed

lemma round2_nonneg: "0 \<le> x \<Longrightarrow> 0 \<le> round2 x"
  unfolding round2_def
  by (intro double_of_nonneg divide_nonneg_nonneg) (simp_all add: round_half_even_nonneg)

lemma random_random_range: "0 \<le> fst (random_random s)" "fst (random_random s) < 1"
  by (simp_all add: random_random_def)

lemma uniform_ge_pow2:
  assumes "2 powi k \<le> a" "- 1022 \<le> k" "a \<le> b"
  shows "2 powi k \<le> fst (uniform a b s)"
proof -
  have "0 \<le> double_of (double_of (b - a) * fst (random_random s))"
    using assms(3) random_random_range(1)[of s]
    by (intro double_of_nonneg mult_nonneg_nonneg) simp_all
  then have "2 powi k \<le> a + double_of (double_of (b - a) * fst (random_random s))"
    using assms(1) by simp
  then show ?thesis
    unfolding uniform_def split_beta fst_conv by (rule double_of_ge_pow2) (rule assms(2))
qed

lemma rand_amount_ge_one:
  assumes "4 \<le> lo" "lo \<le> hi"
  shows "1 \<le> fst (rand_amount lo hi False s)"
proof -
  have "2 powi 2 \<le> fst (uniform lo hi s)"
    by (rule uniform_ge_pow2) (use assms in simp_all)
  then have "1 \<le> fst (uniform lo hi s)" by simp
  then show ?thesis by (simp add: rand_amount_def split_beta round2_ge_one)
qed


section \<open>When the factories return\<close>

definition time_of_day :: "datetime \<Rightarrow> int" where
  "time_of_day t = hour t * 3600 + minute t * 60 + second t"

definition toordinal :: "datetime \<Rightarrow> int" where
  "toordinal t = ymd2ord (year t) (month t) (day t)"

lemma timedelta_add_ok:
  assumes "0 < toordinal t + dd + (time_of_day t + ss) div 86400"
    and "toordinal t + dd + (time_of_day t + ss) div 86400 \<le> MAXORDINAL"
  shows "\<exists>t'. timedelta_add t dd ss = Inr t'
           \<and> toordinal t' = toordinal t + dd + (time_of_day t + ss) div 86400
           \<and> time_of_day t' = (time_of_day t + ss) mod 86400"
proof -
  define n where "n = toordinal t + dd + (time_of_day t + ss) div 86400"
  define r where "r = (time_of_day t + ss) mod 86400"
  obtain y m d where o: "ord2ymd n = (y, m, d)" by (cases "ord2ymd n") auto
  have rt: "ymd2ord y m d = n" using ymd2ord_ord2ymd[of n] by (simp add: o)
  have tod: "r div 3600 * 3600 + r mod 3600 div 60 * 60 + r mod 3600 mod 60 = r"
    by (simp add: algebra_simps)
  have "timedelta_add t dd ss =
      Inr \<lparr>year = y, month = m, day = d,
           hour = r div 3600, minute = r mod 3600 div 60, second = r mod 3600 mod 60\<rparr>"
    using assms o
    unfolding timedelta_add_def Let_def n_def r_def toordinal_def time_of_day_def
    by simp
  then show ?thesis
    using rt tod by (simp add: toordinal_def time_of_day_def n_def r_def)
qed

lemma strptime_ymd_ordinal:
  assumes "strptime_ymd s = Inr t"
  shows "1 \<le> toordinal t" "toordinal t \<le> MAXORDINAL" "time_of_day t = 0"
  using strptime_ymd_valid[OF assms] ymd2ord_range[of "year t" "month t" "day t"]
  by (simp_all add: toordinal_def time_of_day_def)

lemma rand_ts_for_day_ok:
  assumes "strptime_ymd day_str = Inr t"
  shows "\<exists>ts. rand_ts_for_day day_str s = Inr (ts, snd (randint 0 86399 s))
          \<and> toordinal ts = toordinal t \<and> 0 \<le> time_of_day ts \<and> time_of_day ts < 86400"
proof -
  note v = strptime_ymd_ordinal[OF assms]
  define secs where "secs = fst (randint 0 86399 s)"
  have secs: "0 \<le> secs" "secs \<le> 86399" unfolding secs_def by (rule randint_range; simp)+
  then have d: "(time_of_day t + secs) div 86400 = 0" "(time_of_day t + secs) mod 86400 = secs"
    using v(3) by simp_all
  have "\<exists>t'. timedelta_add t 0 secs = Inr t'
           \<and> toordinal t' = toordinal t + 0 + (time_of_day t + secs) div 86400
           \<and> time_of_day t' = (time_of_day t + secs) mod 86400"
    by (rule timedelta_add_ok) (use v d in simp_all)
  then obtain ts where ts: "timedelta_add t 0 secs = Inr ts" "toordinal ts = toordinal t"
    "time_of_day ts = secs" using d by auto
  have "rand_ts_for_day day_str s = Inr (ts, snd (randint 0 86399 s))"
    using ts(1) by (simp add: rand_ts_for_day_def assms split_beta secs_def)
  then show ?thesis using ts secs by auto
qed

definition base_state :: "entropy \<Rightarrow> entropy" where
  "base_state s =
     snd (choice CURRENCIES (snd (randint 1000 500000 (snd (uuid4 (snd (randint 0 86399 s)))))))"

lemma base_record_ok:
  assumes "strptime_ymd day_str = Inr t"
  shows "\<exists>base. base_record day_str source s = Inr (base, base_state s)"
proof -
  from rand_ts_for_day_ok[OF assms, of s] obtain ts where
    "rand_ts_for_day day_str s = Inr (ts, snd (randint 0 86399 s))" by blast
  then show ?thesis by (simp add: base_record_def base_state_def split_beta)
qed

lemma gen_erp_ok:
  assumes "strptime_ymd day_str = Inr t"
  shows "\<exists>rec s'. gen_erp day_str s = Inr (rec, s')"
proof -
  from base_record_ok[OF assms, of "''erp''" s] obtain base where
    "base_record day_str ''erp'' s = Inr (base, base_state s)" by blast
  then show ?thesis by (simp add: gen_erp_def split_beta)
qed


lemma merchant_items:
  "\<exists>a b c d e. fst (merchant s) =
     [(''merchant_id'', a), (''merchant_name'', b), (''merchant_country'', c),
      (''mcc'', d), (''category'', e)]"
  by (simp add: merchant_def split_beta dict_update_def)

lemma gen_payments_ok:
  assumes "strptime_ymd day_str = Inr t"
  shows "\<exists>rec s'. gen_payments day_str s = Inr (rec, s')
           \<and> dict_get rec ''event_type'' =
               Some (JStr (let ch = fst (choices1 PAYMENT_CHANNELS [20, 20, 10, 25, 20, 5] (base_state s))
                           in if ch \<in> set [''card_auth'', ''card_settlement'', ''ach_credit'',
                                            ''ach_debit'', ''wire_transfer''] then ch
                              else ''zelle_payment''))"
proof -
  from base_record_ok[OF assms, of "''payments''" s] obtain base where
    b: "base_record day_str ''payments'' s = Inr (base, base_state s)" by blast
  obtain a1 a2 a3 a4 a5 where m: "fst (merchant (snd (choices1 [''posted'', ''pending'', ''failed''] [80, 17, 3]
        (snd (choices1 PAYMENT_CHANNELS [20, 20, 10, 25, 20, 5] (base_state s)))))) =
     [(''merchant_id'', a1), (''merchant_name'', a2), (''merchant_country'', a3),
      (''mcc'', a4), (''category'', a5)]"
    using merchant_items by blast
  show ?thesis
    by (simp add: gen_payments_def b split_beta Let_def dict_get_update m)
qed


section \<open>The driver's split of events over sources\<close>

lemma allocation_alt:
  "allocation T idx = T div 5 + (if int idx < T mod 5 then 1 else 0)"
  by (simp add: allocation_def SOURCES_def Let_def minus_div_mult_eq_mod)

text \<open>
  Claim C3. For a requested total of \<open>T\<close> events per day the driver passes
  \<open>allocation T idx\<close> to the partition writer for the source at position \<open>idx\<close>.
  Each of the five sources gets \<open>T div 5\<close> events, the first \<open>T mod 5\<close> sources get
  one more, and the five allocations add up to \<open>T\<close>.
\<close>

theorem allocation_sums_to_total:
  "sum_list (map (allocation T) [0..<length SOURCES]) = T \<and>
   (\<forall>idx. allocation T idx = T div 5 + (if int idx < T mod 5 then 1 else 0))"
proof -
  have "sum_list (map (allocation T) [0..<length SOURCES]) =
          5 * (T div 5) + (if 0 < T mod 5 then 1 else 0) + (if 1 < T mod 5 then 1 else 0)
            + (if 2 < T mod 5 then 1 else 0) + (if 3 < T mod 5 then 1 else 0)
            + (if 4 < T mod 5 then 1 else 0)"
    by (simp add: allocation_alt SOURCES_def upt_rec_numeral)
  also have "\<dots> = T" by presburger
  finally have "sum_list (map (allocation T) [0..<length SOURCES]) = T" .
  then show ?thesis by (simp add: allocation_alt)
qed

section \<open>General-ledger postings\<close>

text \<open>
  Claim C9. Every record that \<open>gen_erp\<close> returns has event type \<open>gl_posting\<close>; its
  \<open>amount\<close> is a positive magnitude; and either \<open>debit\<close> carries that amount and
  \<open>credit\<close> is \<open>0.0\<close>, or \<open>credit\<close> carries it and \<open>debit\<close> is \<open>0.0\<close>.
\<close>

theorem gen_erp_debit_credit:
  assumes "gen_erp day_str s = Inr (rec, s')"
  shows "dict_get rec ''event_type'' = Some (JStr ''gl_posting'') \<and>
         (\<exists>amt. 0 < amt \<and> dict_get rec ''amount'' = Some (JFloat amt) \<and>
            ((dict_get rec ''debit'' = Some (JFloat amt) \<and> dict_get rec ''credit'' = Some (JFloat 0)) \<or>
             (dict_get rec ''debit'' = Some (JFloat 0) \<and> dict_get rec ''credit'' = Some (JFloat amt))))"
proof -
  from assms obtain base s1 where b: "base_record day_str ''erp'' s = Inr (base, s1)"
    by (auto simp: gen_erp_def split: sum.splits)
  define s3 where "s3 = snd (choice GL_ACCOUNTS (snd (choice ERP_JOURNALS s1)))"
  define amt where "amt = fst (rand_amount 5 5000 False s3)"
  define side where "side = fst (choice [''debit'', ''credit''] (snd (rand_amount 5 5000 False s3)))"
  have amt: "0 < amt" using rand_amount_ge_one[of 5 5000 s3] by (simp add: amt_def)
  have side: "side = ''debit'' \<or> side = ''credit''"
    unfolding side_def choice_def randbelow_def split_beta fst_conv
    by (simp add: nth_Cons' ) 
  have rec: "dict_get rec ''event_type'' = Some (JStr ''gl_posting'')"
    "dict_get rec ''amount'' = Some (JFloat amt)"
    "dict_get rec ''debit'' = Some (JFloat (if side = ''debit'' then amt else 0))"
    "dict_get rec ''credit'' = Some (JFloat (if side = ''credit'' then amt else 0))"
    using assms
    by (auto simp: gen_erp_def b split_beta dict_get_update amt_def side_def s3_def)
  show ?thesis using amt side rec by auto
qed

theorem gen_erp_debit_credit_witness:
  "\<exists>rec s'. gen_erp ''2024-01-03'' \<lparr>mt = (\<lambda>i. 0), os_urandom = (\<lambda>i. 0)\<rparr> = Inr (rec, s') \<and>
     dict_get rec ''event_type'' = Some (JStr ''gl_posting'') \<and>
     (\<exists>amt. 0 < amt \<and> dict_get rec ''amount'' = Some (JFloat amt) \<and>
        ((dict_get rec ''debit'' = Some (JFloat amt) \<and> dict_get rec ''credit'' = Some (JFloat 0)) \<or>
         (dict_get rec ''debit'' = Some (JFloat 0) \<and> dict_get rec ''credit'' = Some (JFloat amt))))"
proof -
  have p: "strptime_ymd ''2024-01-03'' =
      Inr \<lparr>year = 2024, month = 1, day = 3, hour = 0, minute = 0, second = 0\<rparr>"
    by code_simp
  from gen_erp_ok[OF p] obtain rec s' where
    g: "gen_erp ''2024-01-03'' \<lparr>mt = (\<lambda>i. 0), os_urandom = (\<lambda>i. 0)\<rparr> = Inr (rec, s')"
    by blast
  from gen_erp_debit_credit[OF g] g show ?thesis by blast
qed

section \<open>Card payments\<close>

text \<open>
  Claim C10. In every card record of \<open>gen_payments\<close> (event type \<open>card_auth\<close> or
  \<open>card_settlement\<close>) the decline reason is non-null exactly when the status is
  \<open>failed\<close>, and the approval code is null exactly when the status is \<open>failed\<close>; so
  one of the two fields is null and the other is not.
\<close>

theorem card_approval_xor_decline:
  assumes "gen_payments day_str s = Inr (rec, s')"
    and "dict_get rec ''event_type'' = Some (JStr ''card_auth'')
         \<or> dict_get rec ''event_type'' = Some (JStr ''card_settlement'')"
  shows "\<exists>approval decline st.
           dict_get rec ''approval_code'' = Some approval \<and>
           dict_get rec ''decline_reason'' = Some decline \<and>
           dict_get rec ''status'' = Some (JStr st) \<and>
           (decline \<noteq> JNull \<longleftrightarrow> st = ''failed'') \<and>
           (approval = JNull \<longleftrightarrow> st = ''failed'')"
proof -
  from assms(1) obtain base s1 where b: "base_record day_str ''payments'' s = Inr (base, s1)"
    by (auto simp: gen_payments_def split: sum.splits)
  define ch where "ch = fst (choices1 PAYMENT_CHANNELS [20, 20, 10, 25, 20, 5] s1)"
  define s2 where "s2 = snd (choices1 PAYMENT_CHANNELS [20, 20, 10, 25, 20, 5] s1)"
  define st where "st = fst (choices1 [''posted'', ''pending'', ''failed''] [80, 17, 3] s2)"
  define s3 where "s3 = snd (choices1 [''posted'', ''pending'', ''failed''] [80, 17, 3] s2)"
  obtain a1 a2 a3 a4 a5 where m: "fst (merchant s3) =
     [(''merchant_id'', a1), (''merchant_name'', a2), (''merchant_country'', a3),
      (''mcc'', a4), (''category'', a5)]"
    using merchant_items by blast
  have card: "ch = ''card_auth'' \<or> ch = ''card_settlement''"
    using assms
    by (auto simp: gen_payments_def b split_beta Let_def dict_get_update
        ch_def[symmetric] s2_def[symmetric] st_def[symmetric] s3_def[symmetric]
        split: if_splits)
  show ?thesis
    using assms(1) card
    by (auto simp: gen_payments_def b split_beta Let_def dict_get_update m
        ch_def[symmetric] s2_def[symmetric] st_def[symmetric] s3_def[symmetric])
qed

theorem card_approval_xor_decline_witness:
  "\<exists>rec s'. gen_payments ''2024-01-03'' \<lparr>mt = (\<lambda>i. 2 ^ 52), os_urandom = (\<lambda>i. 0)\<rparr> = Inr (rec, s') \<and>
     dict_get rec ''event_type'' = Some (JStr ''card_auth'') \<and>
     (\<exists>approval decline st.
           dict_get rec ''approval_code'' = Some approval \<and>
           dict_get rec ''decline_reason'' = Some decline \<and>
           dict_get rec ''status'' = Some (JStr st) \<and>
           (decline \<noteq> JNull \<longleftrightarrow> st = ''failed'') \<and>
           (approval = JNull \<longleftrightarrow> st = ''failed''))"
proof -
  let ?E = "\<lparr>mt = (\<lambda>i. 2 ^ 52), os_urandom = (\<lambda>i. 0)\<rparr>"
  have p: "strptime_ymd ''2024-01-03'' =
      Inr \<lparr>year = 2024, month = 1, day = 3, hour = 0, minute = 0, second = 0\<rparr>"
    by code_simp
  have ch: "fst (choices1 PAYMENT_CHANNELS [20, 20, 10, 25, 20, 5] (base_state ?E)) = ''card_auth''"
    by code_simp
  from gen_payments_ok[OF p, of ?E] obtain rec s' where
    g: "gen_payments ''2024-01-03'' ?E = Inr (rec, s')"
    and et: "dict_get rec ''event_type'' = Some (JStr ''card_auth'')"
    unfolding ch by (auto simp: Let_def)
  from card_approval_xor_decline[OF g disjI1[OF et]] g et show ?thesis by blast
qed

end
